theory Spec2Isabelle
  imports Main
begin

section \<open>Data model\<close>

text \<open>
  The interfaces \<^verbatim>\<open>Sensor\<close> and \<^verbatim>\<open>Location\<close>: eight string fields for a sensor,
  and for a location its id, display name and sensor count.
\<close>

record Sensor =
  sensorId :: string
  deviceType :: string
  deviceId :: string
  deviceLabel :: string
  ipAddress :: string
  sensorLabel :: string
  sensorType :: string
  sensorUnit :: string

record Location =
  loc_id :: string
  loc_name :: string
  sensorCount :: nat

section \<open>Display names\<close>

text \<open>
  Character classes of the regular expressions in \<^verbatim>\<open>formatLocationName\<close>:
  \<^verbatim>\<open>[a-z]\<close>, \<^verbatim>\<open>[A-Z]\<close> and \<^verbatim>\<open>\w\<close> (letters, digits and the underscore), by character
  code. None of the expressions carries the \<^verbatim>\<open>u\<close> or \<^verbatim>\<open>i\<close> flag, so every other
  character is outside all three classes. A string is a list of characters with codes
  0 to 255.
\<close>

definition isLower :: "char \<Rightarrow> bool" where
  "isLower c = (97 \<le> (of_char c :: nat) \<and> (of_char c :: nat) \<le> 122)"

definition isUpper :: "char \<Rightarrow> bool" where
  "isUpper c = (65 \<le> (of_char c :: nat) \<and> (of_char c :: nat) \<le> 90)"

definition isDigit :: "char \<Rightarrow> bool" where
  "isDigit c = (48 \<le> (of_char c :: nat) \<and> (of_char c :: nat) \<le> 57)"

definition isWordChar :: "char \<Rightarrow> bool" where
  "isWordChar c = (isLower c \<or> isUpper c \<or> isDigit c \<or> c = CHR ''_'')"

text \<open>
  \<^verbatim>\<open>char.toUpperCase()\<close> on the one-character match of \<^verbatim>\<open>\w\<close>: a lowercase letter
  moves down by 32, a capital, a digit and the underscore stay.
\<close>

definition toUpperCase :: "char \<Rightarrow> char" where
  "toUpperCase c = (if isLower c then char_of ((of_char c :: nat) - 32) else c)"

text \<open>
  \<^verbatim>\<open>.replace(/([a-z])([A-Z])/g, "$1 $2")\<close>: the scan goes left to right; a match
  consumes both characters and the scan resumes after them.
\<close>

fun insertSpaceBeforeCapitals :: "string \<Rightarrow> string" where
  "insertSpaceBeforeCapitals (a # b # rest) =
     (if isLower a \<and> isUpper b then a # CHR '' '' # b # insertSpaceBeforeCapitals rest
      else a # insertSpaceBeforeCapitals (b # rest))"
| "insertSpaceBeforeCapitals s = s"

text \<open>\<^verbatim>\<open>.replace(/_/g, " ")\<close>.\<close>

definition underscoresToSpaces :: "string \<Rightarrow> string" where
  "underscoresToSpaces s = map (\<lambda>c. if c = CHR ''_'' then CHR '' '' else c) s"

text \<open>
  \<^verbatim>\<open>.replace(/\b\w/g, (char) => char.toUpperCase())\<close>: a word character matches when
  the character before it is not a word character (or there is none); the flag says
  whether the previous character of the subject string is a word character.
\<close>

fun capitalizeWords :: "bool \<Rightarrow> string \<Rightarrow> string" where
  "capitalizeWords prevWord [] = []"
| "capitalizeWords prevWord (c # cs) =
     (if isWordChar c \<and> \<not> prevWord then toUpperCase c else c)
       # capitalizeWords (isWordChar c) cs"

definition formatLocationName :: "string \<Rightarrow> string" where
  "formatLocationName ident =
     capitalizeWords False (underscoresToSpaces (insertSpaceBeforeCapitals ident))"

definition getLocationName :: "string \<Rightarrow> string" where
  "getLocationName locationId = formatLocationName locationId"

text \<open>
  The wording of the specification for the first step, for comparison: a space between
  every lowercase letter and the capital that directly follows it.
\<close>

fun spaceAtCaseTransitions :: "string \<Rightarrow> string" where
  "spaceAtCaseTransitions [] = []"
| "spaceAtCaseTransitions [a] = [a]"
| "spaceAtCaseTransitions (a # b # rest) =
     (if isLower a \<and> isUpper b then [a, CHR '' ''] else [a]) @ spaceAtCaseTransitions (b # rest)"

text \<open>A lowercase letter directly followed by a capital, somewhere in the string; the
  flag says whether the character before the string is a lowercase letter.\<close>

fun camelAt :: "bool \<Rightarrow> string \<Rightarrow> bool" where
  "camelAt prevLower [] = False"
| "camelAt prevLower (c # cs) = ((prevLower \<and> isUpper c) \<or> camelAt (isLower c) cs)"

section \<open>Data access layer\<close>

text \<open>
  The underlying source is the dynamic import of \<^verbatim>\<open>@/data/${id}.json\<close>: for a location
  id it resolves with the module's default export (\<open>Some\<close> of the sensor array) or
  rejects (\<open>None\<close>).
\<close>

type_synonym source = "string \<Rightarrow> Sensor list option"

text \<open>
  The module-level state: \<^verbatim>\<open>sensorCache\<close>, a \<^verbatim>\<open>Map<string, Sensor[]>\<close>, together with
  two observation logs, one entry per dynamic import that was issued and one per
  \<^verbatim>\<open>console.error\<close> call (the location or file id it reports).
\<close>

record repo =
  sensorCache :: "string \<rightharpoonup> Sensor list"
  importLog :: "string list"
  consoleErrors :: "string list"

definition emptyRepo :: repo where
  "emptyRepo = \<lparr>sensorCache = Map.empty, importLog = [], consoleErrors = []\<rparr>"

definition LOCATION_FILES :: "string list" where
  "LOCATION_FILES = [''SanDiego'']"

text \<open>
  The loop of \<^verbatim>\<open>getLocations\<close> over the file ids. A successful import pushes the
  location and caches the sensors; a rejected one is logged and skipped.
\<close>

fun getLocationsLoop :: "source \<Rightarrow> string list \<Rightarrow> Location list \<times> repo \<Rightarrow> Location list \<times> repo" where
  "getLocationsLoop src [] acc = acc"
| "getLocationsLoop src (fileId # rest) (locations, st) =
     (case src fileId of
        Some sensors \<Rightarrow>
          getLocationsLoop src rest
            (locations @ [\<lparr>loc_id = fileId, loc_name = formatLocationName fileId,
                            sensorCount = length sensors\<rparr>],
             st\<lparr>sensorCache := (sensorCache st)(fileId \<mapsto> sensors),
                importLog := importLog st @ [fileId]\<rparr>)
      | None \<Rightarrow>
          getLocationsLoop src rest
            (locations,
             st\<lparr>importLog := importLog st @ [fileId],
                consoleErrors := consoleErrors st @ [fileId]\<rparr>))"

definition getLocations :: "source \<Rightarrow> repo \<Rightarrow> Location list \<times> repo" where
  "getLocations src st = getLocationsLoop src LOCATION_FILES ([], st)"

text \<open>A listed location whose import succeeded and whose sensors are in the cache.\<close>

definition listedAndCached :: "source \<Rightarrow> repo \<Rightarrow> Location \<Rightarrow> bool" where
  "listedAndCached src st l =
     (case src (loc_id l) of
        None \<Rightarrow> False
      | Some xs \<Rightarrow> sensorCache st (loc_id l) = Some xs \<and> sensorCount l = length xs)"

text \<open>
  \<^verbatim>\<open>getSensorsByLocation\<close>, run without interruption. The simulated network delay
  changes no state. The promise always resolves: the \<^verbatim>\<open>catch\<close> block logs and
  returns the empty array.
\<close>

definition getSensorsByLocation :: "source \<Rightarrow> string \<Rightarrow> repo \<Rightarrow> Sensor list \<times> repo" where
  "getSensorsByLocation src locationId st =
     (case sensorCache st locationId of
        Some cached \<Rightarrow> (cached, st)
      | None \<Rightarrow>
          (case src locationId of
             Some sensors \<Rightarrow>
               (sensors,
                st\<lparr>sensorCache := (sensorCache st)(locationId \<mapsto> sensors),
                   importLog := importLog st @ [locationId]\<rparr>)
           | None \<Rightarrow>
               ([],
                st\<lparr>importLog := importLog st @ [locationId],
                   consoleErrors := consoleErrors st @ [locationId]\<rparr>)))"


subsection \<open>Calls in flight\<close>

text \<open>
  \<^verbatim>\<open>getSensorsByLocation\<close> suspends twice, at \<^verbatim>\<open>await simulateNetworkDelay()\<close> and at
  \<^verbatim>\<open>await import(...)\<close>; between two suspensions its code runs without interruption.
  A call in flight is at one of these points or has settled with its result.
\<close>

datatype call = AwaitingDelay string | AwaitingImport string | Settled "Sensor list"

text \<open>
  Resuming a call runs it up to its next suspension. After the delay it checks the
  cache and on a miss issues the import; when the import has settled it stores and
  returns the sensors, or logs and returns the empty array.
\<close>

fun resume :: "source \<Rightarrow> call \<Rightarrow> repo \<Rightarrow> call \<times> repo" where
  "resume src (AwaitingDelay locationId) st =
     (case sensorCache st locationId of
        Some cached \<Rightarrow> (Settled cached, st)
      | None \<Rightarrow> (AwaitingImport locationId, st\<lparr>importLog := importLog st @ [locationId]\<rparr>))"
| "resume src (AwaitingImport locationId) st =
     (case src locationId of
        Some sensors \<Rightarrow>
          (Settled sensors, st\<lparr>sensorCache := (sensorCache st)(locationId \<mapsto> sensors)\<rparr>)
      | None \<Rightarrow> (Settled [], st\<lparr>consoleErrors := consoleErrors st @ [locationId]\<rparr>))"
| "resume src (Settled r) st = (Settled r, st)"

text \<open>A schedule names, step by step, the call that the event loop resumes next.\<close>

fun runSchedule :: "source \<Rightarrow> nat list \<Rightarrow> call list \<times> repo \<Rightarrow> call list \<times> repo" where
  "runSchedule src [] cfg = cfg"
| "runSchedule src (i # rest) (calls, st) =
     (if i < length calls
      then (let (c, st') = resume src (calls ! i) st in runSchedule src rest (calls[i := c], st'))
      else runSchedule src rest (calls, st))"

section \<open>The page: catalogue and selection state\<close>

text \<open>
  A JavaScript \<^verbatim>\<open>Set<string>\<close> iterates in insertion order; it is a list without
  repetitions. \<^verbatim>\<open>new Set(array)\<close> adds the elements one by one, \<^verbatim>\<open>Array.from(set)\<close>
  is the list itself and \<^verbatim>\<open>set.size\<close> its length.
\<close>

definition Set_has :: "string list \<Rightarrow> string \<Rightarrow> bool" where
  "Set_has s x = (x \<in> set s)"

definition Set_add :: "string list \<Rightarrow> string \<Rightarrow> string list" where
  "Set_add s x = (if x \<in> set s then s else s @ [x])"

definition Set_delete :: "string list \<Rightarrow> string \<Rightarrow> string list" where
  "Set_delete s x = removeAll x s"

definition Set_of :: "string list \<Rightarrow> string list" where
  "Set_of xs = foldl Set_add [] xs"

text \<open>
  The state of \<^verbatim>\<open>SensorSelectionPage\<close>. The three refs mirror their state variables
  after every render, so a handler reads the state itself. \<open>fetches\<close> holds one entry
  per run of the sensor effect that started a fetch: the location id it captured and
  its \<^verbatim>\<open>isMounted\<close> flag.
\<close>

record page =
  locations :: "Location list"
  selectedLocationId :: "string option"
  isLoadingLocations :: bool
  sensors :: "Sensor list"
  isLoadingSensors :: bool
  selectedSensorIds :: "string list"
  fetches :: "(string \<times> bool) list"

definition initialPage :: page where
  "initialPage =
     \<lparr>locations = [], selectedLocationId = None, isLoadingLocations = True, sensors = [],
      isLoadingSensors = False, selectedSensorIds = [], fetches = []\<rparr>"





definition handleToggleSensor :: "string \<Rightarrow> page \<Rightarrow> page" where
  "handleToggleSensor sensorId' st =
     st\<lparr>selectedSensorIds :=
          (let next = selectedSensorIds st
           in if Set_has next sensorId' then Set_delete next sensorId'
              else Set_add next sensorId')\<rparr>"

definition handleSelectAll :: "page \<Rightarrow> page" where
  "handleSelectAll st =
     (let currentSensors = sensors st
      in st\<lparr>selectedSensorIds := Set_of (map sensorId currentSensors)\<rparr>)"

definition handleDeselectAll :: "page \<Rightarrow> page" where
  "handleDeselectAll st = st\<lparr>selectedSensorIds := []\<rparr>"

text \<open>What \<^verbatim>\<open>handleConfirm\<close> writes to the console: location, count and sensor ids.\<close>

record confirmation =
  confirmedLocation :: "string option"
  confirmedCount :: nat
  confirmedSensorIds :: "string list"

definition handleConfirm :: "page \<Rightarrow> confirmation" where
  "handleConfirm st =
     (let currentSelectedIds = selectedSensorIds st;
          currentLocationId = selectedLocationId st;
          selectedIds = currentSelectedIds
      in \<lparr>confirmedLocation = currentLocationId, confirmedCount = length selectedIds,
          confirmedSensorIds = selectedIds\<rparr>)"

text \<open>The counts the page passes to \<^verbatim>\<open>ActionBar\<close> and \<^verbatim>\<open>SensorList\<close>.\<close>

definition selectedCount :: "page \<Rightarrow> nat" where
  "selectedCount st = length (selectedSensorIds st)"

definition totalCount :: "page \<Rightarrow> nat" where
  "totalCount st = length (sensors st)"

text \<open>\<^verbatim>\<open>ActionBar\<close>: the \<^verbatim>\<open>disabled\<close> attribute of the confirm button.\<close>

definition hasSelection :: "nat \<Rightarrow> bool" where
  "hasSelection count = (0 < count)"

definition confirmDisabled :: "nat \<Rightarrow> bool \<Rightarrow> bool" where
  "confirmDisabled count isLoading = (\<not> hasSelection count \<or> isLoading)"



section \<open>Example data\<close>

text \<open>A sensor record carrying the given id.\<close>

definition mkSensor :: "string \<Rightarrow> Sensor" where
  "mkSensor i =
     \<lparr>sensorId = i, deviceType = ''PDU'', deviceId = ''d'', deviceLabel = ''l'',
      ipAddress = ''10.0.0.1'', sensorLabel = ''s'', sensorType = ''Temperature'',
      sensorUnit = ''C''\<rparr>"

text \<open>A source where only \<^verbatim>\<open>SanDiego.json\<close> exists, with three sensors.\<close>

definition demoSource :: source where
  "demoSource locationId =
     (if locationId = ''SanDiego'' then Some [mkSensor ''A'', mkSensor ''B'', mkSensor ''C'']
      else None)"

definition demoWarmRepo :: repo where
  "demoWarmRepo =
     \<lparr>sensorCache = [''SanDiego'' \<mapsto> [mkSensor ''A'', mkSensor ''B'', mkSensor ''C'']],
      importLog = [''SanDiego''], consoleErrors = []\<rparr>"

text \<open>The page showing location \<^verbatim>\<open>L1\<close> with catalogue A, B, C and nothing selected.\<close>

definition readyPage :: page where
  "readyPage =
     \<lparr>locations = [], selectedLocationId = Some ''L1'', isLoadingLocations = False,
      sensors = [mkSensor ''A'', mkSensor ''B'', mkSensor ''C''], isLoadingSensors = False,
      selectedSensorIds = [], fetches = [(''L1'', True)]\<rparr>"


section \<open>Warm cache reads\<close>


lemma getSensorsByLocation_cold_success:
  "sensorCache st locationId = None \<Longrightarrow> src locationId = Some xs \<Longrightarrow>
   getSensorsByLocation src locationId st =
     (xs, st\<lparr>sensorCache := (sensorCache st)(locationId \<mapsto> xs),
            importLog := importLog st @ [locationId]\<rparr>)"
  by (simp add: getSensorsByLocation_def)





section \<open>Failed loads\<close>

lemma getSensorsByLocation_cold_failure:
  assumes "sensorCache st locationId = None" and "src locationId = None"
  shows "getSensorsByLocation src locationId st =
    ([], st\<lparr>importLog := importLog st @ [locationId],
             consoleErrors := consoleErrors st @ [locationId]\<rparr>)"
  using assms by (simp add: getSensorsByLocation_def)

text \<open>
  Claim C3, as stated, fails: for a location whose import is rejected the call does not
  fail. The example source has no file for \<^verbatim>\<open>Nowhere\<close>, and the call on the empty
  repository returns the empty list as its value, after one import and one logged error.
\<close>

theorem failed_load_returns_empty_list:
  "demoSource ''Nowhere'' = None
   \<and> getSensorsByLocation demoSource ''Nowhere'' emptyRepo
       = ([], \<lparr>sensorCache = Map.empty, importLog = [''Nowhere''],
               consoleErrors = [''Nowhere'']\<rparr>)"
  by (simp add: getSensorsByLocation_def demoSource_def emptyRepo_def)

text \<open>
  Claim C3, amended. When the import for an uncached location is rejected,
  \<^verbatim>\<open>getSensorsByLocation\<close> logs the error and returns the empty list; the cache is left
  as it was, so the entry stays absent, and a second call for the same id imports again
  (the import log has grown by two entries after two calls) and again returns the empty
  list.
\<close>

theorem failed_load_resolves_empty_and_retries:
  assumes miss: "sensorCache st locationId = None" and bad: "src locationId = None"
    and first: "getSensorsByLocation src locationId st = (r1, st1)"
    and second: "getSensorsByLocation src locationId st1 = (r2, st2)"
  shows "r1 = [] \<and> sensorCache st1 = sensorCache st
    \<and> importLog st1 = importLog st @ [locationId]
    \<and> consoleErrors st1 = consoleErrors st @ [locationId]
    \<and> r2 = [] \<and> sensorCache st2 = sensorCache st
    \<and> importLog st2 = importLog st @ [locationId, locationId]"
proof -
  from first have r1: "r1 = []"
    and st1: "st1 = st\<lparr>importLog := importLog st @ [locationId],
                         consoleErrors := consoleErrors st @ [locationId]\<rparr>"
    using getSensorsByLocation_cold_failure [of st locationId src] miss bad by auto
  from st1 miss have miss1: "sensorCache st1 locationId = None" by simp
  from second have r2: "r2 = []"
    and st2: "st2 = st1\<lparr>importLog := importLog st1 @ [locationId],
                          consoleErrors := consoleErrors st1 @ [locationId]\<rparr>"
    using getSensorsByLocation_cold_failure [of st1 locationId src] miss1 bad by auto
  from r1 r2 st1 st2 show ?thesis by simp
qed

theorem failed_load_resolves_empty_and_retries_witness:
  "sensorCache emptyRepo ''Nowhere'' = None \<and> demoSource ''Nowhere'' = None
   \<and> getSensorsByLocation demoSource ''Nowhere'' emptyRepo
       = ([], \<lparr>sensorCache = Map.empty, importLog = [''Nowhere''],
               consoleErrors = [''Nowhere'']\<rparr>)
   \<and> getSensorsByLocation demoSource ''Nowhere''
        \<lparr>sensorCache = Map.empty, importLog = [''Nowhere''], consoleErrors = [''Nowhere'']\<rparr>
       = ([], \<lparr>sensorCache = Map.empty, importLog = [''Nowhere'', ''Nowhere''],
               consoleErrors = [''Nowhere'', ''Nowhere'']\<rparr>)
   \<and> importLog \<lparr>sensorCache = Map.empty, importLog = [''Nowhere'', ''Nowhere''],
               consoleErrors = [''Nowhere'', ''Nowhere'']\<rparr>
       = importLog emptyRepo @ [''Nowhere'', ''Nowhere'']"
proof -
  have miss: "sensorCache emptyRepo ''Nowhere'' = None"
    by (simp add: emptyRepo_def)
  have bad: "demoSource ''Nowhere'' = None"
    by (simp add: demoSource_def)
  have first: "getSensorsByLocation demoSource ''Nowhere'' emptyRepo
       = ([], \<lparr>sensorCache = Map.empty, importLog = [''Nowhere''],
               consoleErrors = [''Nowhere'']\<rparr>)"
    by (simp add: getSensorsByLocation_def demoSource_def emptyRepo_def)
  have second: "getSensorsByLocation demoSource ''Nowhere''
        \<lparr>sensorCache = Map.empty, importLog = [''Nowhere''], consoleErrors = [''Nowhere'']\<rparr>
       = ([], \<lparr>sensorCache = Map.empty, importLog = [''Nowhere'', ''Nowhere''],
               consoleErrors = [''Nowhere'', ''Nowhere'']\<rparr>)"
    by (simp add: getSensorsByLocation_def demoSource_def)
  from failed_load_resolves_empty_and_retries [of emptyRepo "''Nowhere''" demoSource, OF miss bad first second]
  have "importLog \<lparr>sensorCache = Map.empty, importLog = [''Nowhere'', ''Nowhere''],
               consoleErrors = [''Nowhere'', ''Nowhere'']\<rparr>
       = importLog emptyRepo @ [''Nowhere'', ''Nowhere'']"
    by blast
  with miss bad first second show ?thesis by blast
qed

section \<open>Listing locations fills the cache\<close>

lemma getLocationsLoop_cached:
  assumes "getLocationsLoop src files (locs, st) = (locs', st')"
    and "\<forall>l \<in> set locs. listedAndCached src st l"
  shows "\<forall>l \<in> set locs'. listedAndCached src st' l"
  using assms
proof (induction files arbitrary: locs st)
  case Nil
  then show ?case by simp
next
  case (Cons fileId rest)
  show ?case
  proof (cases "src fileId")
    case None
    with Cons.prems(1) have run: "getLocationsLoop src rest
        (locs, st\<lparr>importLog := importLog st @ [fileId],
                  consoleErrors := consoleErrors st @ [fileId]\<rparr>) = (locs', st')"
      by simp
    show ?thesis
      by (rule Cons.IH [OF run])
        (use Cons.prems(2) in \<open>auto simp add: listedAndCached_def split: option.splits\<close>)
  next
    case (Some sensors)
    with Cons.prems(1) have run: "getLocationsLoop src rest
        (locs @ [\<lparr>loc_id = fileId, loc_name = formatLocationName fileId,
                  sensorCount = length sensors\<rparr>],
         st\<lparr>sensorCache := (sensorCache st)(fileId \<mapsto> sensors),
            importLog := importLog st @ [fileId]\<rparr>) = (locs', st')"
      by simp
    show ?thesis
      by (rule Cons.IH [OF run])
        (use Cons.prems(2) Some in \<open>auto simp add: listedAndCached_def split: option.splits\<close>)
  qed
qed

lemma formatLocationName_SanDiego: "formatLocationName ''SanDiego'' = ''San Diego''"
  by code_simp

text \<open>
  Claim C10. After \<^verbatim>\<open>getLocations\<close> has returned, every location of the returned array
  has its full sensor list, the one its import resolved with, in the cache, and its
  \<^verbatim>\<open>sensorCount\<close> is that list's length; \<^verbatim>\<open>getSensorsByLocation\<close> for its id then
  returns that list and leaves the repository state, import log included, unchanged.
\<close>

theorem listed_locations_are_cached:
  assumes run: "getLocations src st = (locs, st')" and l: "l \<in> set locs"
  shows "\<exists>xs. src (loc_id l) = Some xs \<and> sensorCache st' (loc_id l) = Some xs
    \<and> sensorCount l = length xs
    \<and> getSensorsByLocation src (loc_id l) st' = (xs, st')"
proof -
  from run have "getLocationsLoop src LOCATION_FILES ([], st) = (locs, st')"
    by (simp add: getLocations_def)
  then have "\<forall>l \<in> set locs. listedAndCached src st' l"
    by (rule getLocationsLoop_cached) simp
  with l have "listedAndCached src st' l" by blast
  then obtain xs where xs: "src (loc_id l) = Some xs" "sensorCache st' (loc_id l) = Some xs"
    "sensorCount l = length xs"
    by (auto simp add: listedAndCached_def split: option.splits)
  from xs(2) have "getSensorsByLocation src (loc_id l) st' = (xs, st')"
    by (simp add: getSensorsByLocation_def)
  with xs show ?thesis by blast
qed

theorem listed_locations_are_cached_witness:
  "getLocations demoSource emptyRepo
     = ([\<lparr>loc_id = ''SanDiego'', loc_name = ''San Diego'', sensorCount = 3\<rparr>], demoWarmRepo)
   \<and> (\<exists>xs. demoSource ''SanDiego'' = Some xs \<and> sensorCache demoWarmRepo ''SanDiego'' = Some xs
        \<and> (3::nat) = length xs
        \<and> getSensorsByLocation demoSource ''SanDiego'' demoWarmRepo = (xs, demoWarmRepo))"
proof -
  have run: "getLocations demoSource emptyRepo
     = ([\<lparr>loc_id = ''SanDiego'', loc_name = ''San Diego'', sensorCount = 3\<rparr>], demoWarmRepo)"
    by (simp add: getLocations_def LOCATION_FILES_def demoSource_def emptyRepo_def
        demoWarmRepo_def formatLocationName_SanDiego)
  from listed_locations_are_cached [OF run, of "\<lparr>loc_id = ''SanDiego'', loc_name = ''San Diego'', sensorCount = 3\<rparr>"]
  show ?thesis using run by simp
qed

section \<open>Display names: the derivation and its fixed points\<close>

lemma isLower_not_isUpper: "isLower c \<Longrightarrow> \<not> isUpper c"
  by (simp add: isLower_def isUpper_def)

lemma isUpper_toUpperCase: "isLower c \<Longrightarrow> isUpper (toUpperCase c)"
  by (auto simp add: isLower_def isUpper_def toUpperCase_def)

lemma toUpperCase_not_lower: "\<not> isLower (toUpperCase c)"
  using isUpper_toUpperCase [of c] isLower_not_isUpper [of "toUpperCase c"]
  by (cases "isLower c") (auto simp add: toUpperCase_def)

lemma toUpperCase_idem: "toUpperCase (toUpperCase c) = toUpperCase c"
  using toUpperCase_not_lower [of c] by (simp add: toUpperCase_def [of "toUpperCase c"])

lemma isWordChar_toUpperCase: "isWordChar c \<Longrightarrow> isWordChar (toUpperCase c)"
  using isUpper_toUpperCase [of c]
  by (cases "isLower c") (auto simp add: isWordChar_def toUpperCase_def)

lemma toUpperCase_underscore: "c \<noteq> CHR ''_'' \<Longrightarrow> toUpperCase c \<noteq> CHR ''_''"
proof (cases "isLower c")
  case True
  have "\<not> isUpper CHR ''_''" by (simp add: isUpper_def)
  with isUpper_toUpperCase [OF True] show ?thesis by auto
next
  case False
  assume "c \<noteq> CHR ''_''"
  with False show ?thesis by (simp add: toUpperCase_def)
qed

subsection \<open>The first replacement leaves no lowercase letter before a capital\<close>

lemma insertSpaceBeforeCapitals_hd:
  "insertSpaceBeforeCapitals (c # cs) = c # tl (insertSpaceBeforeCapitals (c # cs))"
  by (cases cs) auto

lemma insertSpaceBeforeCapitals_no_camel: "\<not> camelAt False (insertSpaceBeforeCapitals s)"
proof (induction s rule: insertSpaceBeforeCapitals.induct)
  case (1 a b rest)
  show ?case
  proof (cases "isLower a \<and> isUpper b")
    case True
    have sp: "\<not> isLower CHR '' ''" "\<not> isUpper CHR '' ''"
      by (simp_all add: isLower_def isUpper_def)
    from True have "\<not> isLower b" using isLower_not_isUpper by blast
    with 1 True sp show ?thesis
      by (cases "insertSpaceBeforeCapitals rest") auto
  next
    case False
    with 1 have ih: "\<not> camelAt False (insertSpaceBeforeCapitals (b # rest))" by simp
    obtain t where t: "insertSpaceBeforeCapitals (b # rest) = b # t"
      using insertSpaceBeforeCapitals_hd by blast
    from False ih show ?thesis by (auto simp add: t)
  qed
qed simp_all

lemma insertSpaceBeforeCapitals_fixed:
  "\<not> camelAt False s \<Longrightarrow> insertSpaceBeforeCapitals s = s"
  by (induction s rule: insertSpaceBeforeCapitals.induct) auto

lemma spaceAtCaseTransitions_not_lower:
  "\<not> isLower b \<Longrightarrow> spaceAtCaseTransitions (b # rest) = b # spaceAtCaseTransitions rest"
  by (cases rest) simp_all

lemma insertSpaceBeforeCapitals_spec:
  "insertSpaceBeforeCapitals s = spaceAtCaseTransitions s"
proof (induction s rule: insertSpaceBeforeCapitals.induct)
  case (1 a b rest)
  show ?case
  proof (cases "isLower a \<and> isUpper b")
    case True
    then have "\<not> isLower b" using isLower_not_isUpper by blast
    with 1 True show ?thesis
      by (simp add: spaceAtCaseTransitions_not_lower)
  next
    case False
    with 1 show ?thesis by auto
  qed
qed simp_all

subsection \<open>The later replacements keep that, and leave no underscore\<close>

lemma underscoresToSpaces_camel: "camelAt p (underscoresToSpaces s) = camelAt p s"
  by (induction s arbitrary: p) (auto simp add: underscoresToSpaces_def isLower_def isUpper_def)

lemma underscoresToSpaces_none: "CHR ''_'' \<notin> set (underscoresToSpaces s)"
  by (induction s) (auto simp add: underscoresToSpaces_def)

lemma underscoresToSpaces_fixed: "CHR ''_'' \<notin> set s \<Longrightarrow> underscoresToSpaces s = s"
  by (induction s) (auto simp add: underscoresToSpaces_def)

lemma capitalizeWords_underscore:
  "CHR ''_'' \<notin> set s \<Longrightarrow> CHR ''_'' \<notin> set (capitalizeWords p s)"
proof (induction s arbitrary: p)
  case Nil
  show ?case by simp
next
  case (Cons c cs)
  then have "c \<noteq> CHR ''_''" and "CHR ''_'' \<notin> set (capitalizeWords (isWordChar c) cs)"
    by auto
  with toUpperCase_underscore [of c] show ?case by auto
qed

lemma capitalizeWords_camel:
  "\<not> camelAt q s \<Longrightarrow> (q' \<Longrightarrow> q \<and> p) \<Longrightarrow> \<not> camelAt q' (capitalizeWords p s)"
proof (induction s arbitrary: p q q')
  case Nil
  then show ?case by simp
next
  case (Cons c cs)
  define c' where "c' = (if isWordChar c \<and> \<not> p then toUpperCase c else c)"
  from Cons.prems(1) have here: "\<not> (q \<and> isUpper c)" and rest: "\<not> camelAt (isLower c) cs"
    by simp_all
  have low: "isLower c' \<Longrightarrow> isLower c \<and> isWordChar c"
    using toUpperCase_not_lower [of c] by (auto simp add: c'_def isWordChar_def split: if_splits)
  have tail: "\<not> camelAt (isLower c') (capitalizeWords (isWordChar c) cs)"
    by (rule Cons.IH [OF rest]) (rule low)
  have head: "\<not> (q' \<and> isUpper c')"
  proof
    assume h: "q' \<and> isUpper c'"
    with Cons.prems(2) have "q" "p" by simp_all
    with h have "isUpper c" by (simp add: c'_def)
    with here \<open>q\<close> show False by simp
  qed
  from head tail show ?case by (simp add: c'_def)
qed

lemma capitalizeWords_idem: "capitalizeWords p (capitalizeWords p s) = capitalizeWords p s"
  by (induction s arbitrary: p) (auto simp add: toUpperCase_idem isWordChar_toUpperCase)

lemma formatLocationName_no_camel: "\<not> camelAt False (formatLocationName s)"
  unfolding formatLocationName_def
  by (rule capitalizeWords_camel [where q = False])
    (simp_all add: underscoresToSpaces_camel insertSpaceBeforeCapitals_no_camel)

lemma formatLocationName_no_underscore: "CHR ''_'' \<notin> set (formatLocationName s)"
  unfolding formatLocationName_def
  by (rule capitalizeWords_underscore) (rule underscoresToSpaces_none)

lemma formatLocationName_idem:
  "formatLocationName (formatLocationName s) = formatLocationName s"
proof -
  have "formatLocationName (formatLocationName s) = capitalizeWords False (formatLocationName s)"
    by (simp add: formatLocationName_def [of "formatLocationName s"]
        insertSpaceBeforeCapitals_fixed [OF formatLocationName_no_camel]
        underscoresToSpaces_fixed [OF formatLocationName_no_underscore])
  also have "\<dots> = formatLocationName s"
    by (simp add: formatLocationName_def capitalizeWords_idem)
  finally show ?thesis .
qed

lemma formatLocationName_NewYork: "formatLocationName ''NewYork'' = ''New York''"
  by code_simp

text \<open>
  Claim C8, as stated, fails: a transition between a letter and a digit is no boundary.
  In \<^verbatim>\<open>Zone2East\<close> neither \<^verbatim>\<open>e2\<close> nor \<^verbatim>\<open>2E\<close> receives a space, and the name comes
  back as it went in.
\<close>

theorem digit_transition_gets_no_space:
  "formatLocationName ''Zone2East'' = ''Zone2East''"
  by code_simp

text \<open>
  Claim C8, amended. \<^verbatim>\<open>formatLocationName\<close> is a function of the id alone. It puts a
  space between every lowercase letter and the capital directly after it, turns every
  underscore into a space, and makes the first character of every run of word
  characters a capital; an id with no such letter pair and no underscore is only
  capitalized, whatever digits or other separators it contains. It maps \<^verbatim>\<open>SanDiego\<close>
  to \<^verbatim>\<open>San Diego\<close> and \<^verbatim>\<open>NewYork\<close> to \<^verbatim>\<open>New York\<close>, and it is idempotent on every
  string.
\<close>

theorem formatLocationName_derivation:
  "formatLocationName ''SanDiego'' = ''San Diego''
   \<and> formatLocationName ''NewYork'' = ''New York''
   \<and> formatLocationName (formatLocationName s) = formatLocationName s
   \<and> formatLocationName s
       = capitalizeWords False (underscoresToSpaces (spaceAtCaseTransitions s))
   \<and> (\<not> camelAt False s \<and> CHR ''_'' \<notin> set s \<longrightarrow>
        formatLocationName s = capitalizeWords False s)"
proof -
  have spec: "formatLocationName s
       = capitalizeWords False (underscoresToSpaces (spaceAtCaseTransitions s))"
    by (simp add: formatLocationName_def insertSpaceBeforeCapitals_spec)
  have plain: "\<not> camelAt False s \<and> CHR ''_'' \<notin> set s \<longrightarrow>
        formatLocationName s = capitalizeWords False s"
    by (simp add: formatLocationName_def insertSpaceBeforeCapitals_fixed underscoresToSpaces_fixed)
  from formatLocationName_SanDiego formatLocationName_NewYork formatLocationName_idem [of s]
    spec plain
  show ?thesis by blast
qed

theorem formatLocationName_derivation_witness:
  "\<not> camelAt False ''Zone2East'' \<and> CHR ''_'' \<notin> set ''Zone2East''
   \<and> formatLocationName ''Zone2East'' = capitalizeWords False ''Zone2East''
   \<and> capitalizeWords False ''Zone2East'' = ''Zone2East''
   \<and> formatLocationName (formatLocationName ''san_diegoCA'') = formatLocationName ''san_diegoCA''
   \<and> formatLocationName ''san_diegoCA'' = ''San Diego CA''"
proof -
  have h1: "\<not> camelAt False ''Zone2East''" by code_simp
  have h2: "CHR ''_'' \<notin> set ''Zone2East''" by simp
  have v: "capitalizeWords False ''Zone2East'' = ''Zone2East''" by code_simp
  have w: "formatLocationName ''san_diegoCA'' = ''San Diego CA''" by code_simp
  from formatLocationName_derivation [of "''Zone2East''"] h1 h2
  have a: "formatLocationName ''Zone2East'' = capitalizeWords False ''Zone2East''" by blast
  from formatLocationName_derivation [of "''san_diegoCA''"]
  have b: "formatLocationName (formatLocationName ''san_diegoCA'') = formatLocationName ''san_diegoCA''"
    by blast
  from h1 h2 a v b w show ?thesis by blast
qed

section \<open>Concurrent cold calls\<close>

text \<open>
  One call resumed twice with nothing in between is \<^verbatim>\<open>getSensorsByLocation\<close> run
  without interruption.
\<close>

lemma runSchedule_single_call:
  "runSchedule src [0, 0] ([AwaitingDelay locationId], st)
   = ([Settled (fst (getSensorsByLocation src locationId st))],
      snd (getSensorsByLocation src locationId st))"
  by (simp add: getSensorsByLocation_def split: option.splits)

lemma runSchedule_append:
  "runSchedule src (a @ b) cfg = runSchedule src b (runSchedule src a cfg)"
proof (induction a arbitrary: cfg)
  case Nil
  show ?case by simp
next
  case (Cons i a)
  obtain calls st where cfg: "cfg = (calls, st)" by (cases cfg)
  show ?case
    by (cases "resume src (calls ! i) st") (simp add: cfg Cons.IH)
qed

lemma map_upt_update:
  "i < n \<Longrightarrow> (map f [0..<n])[i := v] = map (f(i := v)) [0..<n]"
  by (rule nth_equalityI) (auto simp add: nth_list_update)

lemma map_upt_const:
  "(\<And>i. i < n \<Longrightarrow> f i = a) \<Longrightarrow> map f [0..<n] = replicate n a"
  by (rule nth_equalityI) simp_all

lemma checks_in_any_order:
  assumes "sensorCache st locationId = None"
    and "distinct p" and "set p \<subseteq> {0..<n}" and "set p \<inter> D = {}"
  shows "runSchedule src p
      (map (\<lambda>i. if i \<in> D then AwaitingImport locationId else AwaitingDelay locationId) [0..<n], st)
    = (map (\<lambda>i. if i \<in> D \<union> set p then AwaitingImport locationId
                   else AwaitingDelay locationId) [0..<n],
       st\<lparr>importLog := importLog st @ replicate (length p) locationId\<rparr>)"
  using assms
proof (induction p arbitrary: D st)
  case Nil
  show ?case by simp
next
  case (Cons i p)
  let ?f = "\<lambda>D i. if i \<in> D then AwaitingImport locationId else AwaitingDelay locationId"
  let ?st1 = "st\<lparr>importLog := importLog st @ [locationId]\<rparr>"
  from Cons.prems have i: "i < n" "i \<notin> D" by auto
  have miss1: "sensorCache ?st1 locationId = None" using Cons.prems(1) by simp
  have nth: "map (?f D) [0..<n] ! i = AwaitingDelay locationId"
    using i by simp
  have upd: "(map (?f D) [0..<n])[i := AwaitingImport locationId] = map (?f (insert i D)) [0..<n]"
    using i by (simp add: map_upt_update fun_upd_def)
  have "runSchedule src (i # p) (map (?f D) [0..<n], st)
      = runSchedule src p (map (?f (insert i D)) [0..<n], ?st1)"
    using i Cons.prems(1) nth upd by simp
  also have "\<dots> = (map (?f (insert i D \<union> set p)) [0..<n],
       ?st1\<lparr>importLog := importLog ?st1 @ replicate (length p) locationId\<rparr>)"
    using miss1 by (rule Cons.IH) (use Cons.prems in auto)
  also have "\<dots> = (map (?f (D \<union> set (i # p))) [0..<n],
       st\<lparr>importLog := importLog st @ replicate (length (i # p)) locationId\<rparr>)"
    by simp
  finally show ?case .
qed

lemma loads_in_any_order:
  assumes "src locationId = Some xs"
    and "distinct q" and "set q \<subseteq> {0..<n}" and "set q \<inter> D = {}"
  shows "runSchedule src q
      (map (\<lambda>i. if i \<in> D then Settled xs else AwaitingImport locationId) [0..<n], st)
    = (map (\<lambda>i. if i \<in> D \<union> set q then Settled xs else AwaitingImport locationId) [0..<n],
       st\<lparr>sensorCache := (if q = [] then sensorCache st
                             else (sensorCache st)(locationId \<mapsto> xs))\<rparr>)"
  using assms
proof (induction q arbitrary: D st)
  case Nil
  show ?case by simp
next
  case (Cons i q)
  let ?f = "\<lambda>D i. if i \<in> D then Settled xs else AwaitingImport locationId"
  let ?st1 = "st\<lparr>sensorCache := (sensorCache st)(locationId \<mapsto> xs)\<rparr>"
  from Cons.prems have i: "i < n" "i \<notin> D" by auto
  have nth: "map (?f D) [0..<n] ! i = AwaitingImport locationId"
    using i by simp
  have upd: "(map (?f D) [0..<n])[i := Settled xs] = map (?f (insert i D)) [0..<n]"
    using i by (simp add: map_upt_update fun_upd_def)
  have "runSchedule src (i # q) (map (?f D) [0..<n], st)
      = runSchedule src q (map (?f (insert i D)) [0..<n], ?st1)"
    using i Cons.prems(1) nth upd by simp
  also have "\<dots> = (map (?f (insert i D \<union> set q)) [0..<n],
       ?st1\<lparr>sensorCache := (if q = [] then sensorCache ?st1
                               else (sensorCache ?st1)(locationId \<mapsto> xs))\<rparr>)"
    using Cons.prems(1) by (rule Cons.IH) (use Cons.prems in auto)
  also have "\<dots> = (map (?f (D \<union> set (i # q))) [0..<n],
       st\<lparr>sensorCache := (if i # q = [] then sensorCache st
                             else (sensorCache st)(locationId \<mapsto> xs))\<rparr>)"
    by simp
  finally show ?case .
qed

lemma resume_keeps_entry:
  "src locationId = Some xs \<Longrightarrow> sensorCache st locationId = Some xs \<Longrightarrow>
   sensorCache (snd (resume src c st)) locationId = Some xs"
  by (cases c) (auto split: option.splits)

lemma runSchedule_keeps_entry:
  "src locationId = Some xs \<Longrightarrow> sensorCache st locationId = Some xs \<Longrightarrow>
   sensorCache (snd (runSchedule src sched (calls, st))) locationId = Some xs"
proof (induction sched arbitrary: calls st)
  case Nil
  then show ?case by simp
next
  case (Cons i sched)
  show ?case
  proof (cases "i < length calls")
    case True
    obtain c st' where r: "resume src (calls ! i) st = (c, st')"
      by (cases "resume src (calls ! i) st")
    with resume_keeps_entry [of src locationId xs st "calls ! i"] Cons.prems
    have "sensorCache st' locationId = Some xs" by simp
    with Cons.IH [of st' "calls[i := c]"] Cons.prems(1) True r show ?thesis by simp
  next
    case False
    with Cons show ?thesis by simp
  qed
qed

text \<open>
  Claim C6, as stated, fails: two cold calls for \<^verbatim>\<open>SanDiego\<close> on the empty repository,
  both resumed from their delay before either import has settled, issue two imports.
  Both resolve with the loaded list.
\<close>

theorem concurrent_cold_calls_import_twice:
  "runSchedule demoSource [0, 1, 0, 1]
     ([AwaitingDelay ''SanDiego'', AwaitingDelay ''SanDiego''], emptyRepo)
   = ([Settled [mkSensor ''A'', mkSensor ''B'', mkSensor ''C''],
       Settled [mkSensor ''A'', mkSensor ''B'', mkSensor ''C'']],
      \<lparr>sensorCache = [''SanDiego'' \<mapsto> [mkSensor ''A'', mkSensor ''B'', mkSensor ''C'']],
       importLog = [''SanDiego'', ''SanDiego''], consoleErrors = []\<rparr>)"
  by (simp add: demoSource_def emptyRepo_def)

text \<open>
  Claim C6, amended. Concurrent cold calls are not coalesced. Take \<open>n\<close> calls for the
  same uncached id whose import succeeds. In every run in which all \<open>n\<close> cache checks,
  in any order, come before the \<open>n\<close> loads complete, in any order, each call invokes the
  source, \<open>n\<close> imports in all; every call resolves with the loaded list and the cache
  holds it afterwards. In general a call whose cache check finds no entry issues an
  import; a completed load stores the entry; the entry then stays whatever calls run
  later, and every call whose cache check comes after it is served the list without an
  import. Of two calls run one after the other, the second is such a call, and the
  import log grows by one entry.
\<close>

theorem cold_calls_not_coalesced:
  assumes miss: "sensorCache st locationId = None" and ok: "src locationId = Some xs"
    and n: "0 < n"
    and p: "distinct p \<and> set p = {0..<n}" and q: "distinct q \<and> set q = {0..<n}"
  shows "runSchedule src (p @ q) (replicate n (AwaitingDelay locationId), st)
      = (replicate n (Settled xs),
         st\<lparr>sensorCache := (sensorCache st)(locationId \<mapsto> xs),
            importLog := importLog st @ replicate n locationId\<rparr>)
    \<and> runSchedule src [0, 0, 1] ([AwaitingDelay locationId, AwaitingDelay locationId], st)
      = ([Settled xs, Settled xs],
         st\<lparr>sensorCache := (sensorCache st)(locationId \<mapsto> xs),
            importLog := importLog st @ [locationId]\<rparr>)
    \<and> resume src (AwaitingDelay locationId) st
      = (AwaitingImport locationId, st\<lparr>importLog := importLog st @ [locationId]\<rparr>)
    \<and> resume src (AwaitingImport locationId) st
      = (Settled xs, st\<lparr>sensorCache := (sensorCache st)(locationId \<mapsto> xs)\<rparr>)
    \<and> (sensorCache st' locationId = Some xs \<longrightarrow>
         sensorCache (snd (runSchedule src sched (calls, st'))) locationId = Some xs
         \<and> resume src (AwaitingDelay locationId) (snd (runSchedule src sched (calls, st')))
           = (Settled xs, snd (runSchedule src sched (calls, st'))))"
proof -
  have lp: "length p = n" using p distinct_card [of p] by simp
  have "runSchedule src p
      (map (\<lambda>i. if i \<in> {} then AwaitingImport locationId else AwaitingDelay locationId) [0..<n], st)
    = (map (\<lambda>i. if i \<in> {} \<union> set p then AwaitingImport locationId
                   else AwaitingDelay locationId) [0..<n],
       st\<lparr>importLog := importLog st @ replicate (length p) locationId\<rparr>)"
    using miss by (rule checks_in_any_order) (use p in auto)
  then have p1: "runSchedule src p (replicate n (AwaitingDelay locationId), st)
      = (replicate n (AwaitingImport locationId),
         st\<lparr>importLog := importLog st @ replicate n locationId\<rparr>)"
    using p by (simp add: lp map_replicate_const map_upt_const)
  let ?st1 = "st\<lparr>importLog := importLog st @ replicate n locationId\<rparr>"
  have "runSchedule src q
      (map (\<lambda>i. if i \<in> {} then Settled xs else AwaitingImport locationId) [0..<n], ?st1)
    = (map (\<lambda>i. if i \<in> {} \<union> set q then Settled xs else AwaitingImport locationId) [0..<n],
       ?st1\<lparr>sensorCache := (if q = [] then sensorCache ?st1
                             else (sensorCache ?st1)(locationId \<mapsto> xs))\<rparr>)"
    using ok by (rule loads_in_any_order) (use q in auto)
  moreover have "q \<noteq> []" using q n by auto
  ultimately have p2: "runSchedule src q (replicate n (AwaitingImport locationId), ?st1)
      = (replicate n (Settled xs),
         st\<lparr>sensorCache := (sensorCache st)(locationId \<mapsto> xs),
            importLog := importLog st @ replicate n locationId\<rparr>)"
    using q by (simp add: map_replicate_const map_upt_const)
  have run: "runSchedule src (p @ q) (replicate n (AwaitingDelay locationId), st)
      = (replicate n (Settled xs),
         st\<lparr>sensorCache := (sensorCache st)(locationId \<mapsto> xs),
            importLog := importLog st @ replicate n locationId\<rparr>)"
    by (simp add: runSchedule_append p1 p2)
  have chk: "resume src (AwaitingDelay locationId) st
      = (AwaitingImport locationId, st\<lparr>importLog := importLog st @ [locationId]\<rparr>)"
    using miss by simp
  have ld: "resume src (AwaitingImport locationId) st
      = (Settled xs, st\<lparr>sensorCache := (sensorCache st)(locationId \<mapsto> xs)\<rparr>)"
    using ok by simp
  have warm: "sensorCache st' locationId = Some xs \<longrightarrow>
         sensorCache (snd (runSchedule src sched (calls, st'))) locationId = Some xs
         \<and> resume src (AwaitingDelay locationId) (snd (runSchedule src sched (calls, st')))
           = (Settled xs, snd (runSchedule src sched (calls, st')))"
  proof
    assume "sensorCache st' locationId = Some xs"
    with ok have "sensorCache (snd (runSchedule src sched (calls, st'))) locationId = Some xs"
      by (rule runSchedule_keeps_entry)
    then show "sensorCache (snd (runSchedule src sched (calls, st'))) locationId = Some xs
         \<and> resume src (AwaitingDelay locationId) (snd (runSchedule src sched (calls, st')))
           = (Settled xs, snd (runSchedule src sched (calls, st')))"
      by simp
  qed
  have seq: "runSchedule src [0, 0, 1] ([AwaitingDelay locationId, AwaitingDelay locationId], st)
      = ([Settled xs, Settled xs],
         st\<lparr>sensorCache := (sensorCache st)(locationId \<mapsto> xs),
            importLog := importLog st @ [locationId]\<rparr>)"
    using miss ok by simp
  from run seq chk ld warm show ?thesis by blast
qed

theorem cold_calls_not_coalesced_witness:
  "sensorCache emptyRepo ''SanDiego'' = None
   \<and> demoSource ''SanDiego'' = Some [mkSensor ''A'', mkSensor ''B'', mkSensor ''C'']
   \<and> (0::nat) < 2
   \<and> distinct [1, 0 :: nat] \<and> set [1, 0 :: nat] = {0..<2}
   \<and> distinct [0, 1 :: nat] \<and> set [0, 1 :: nat] = {0..<2}
   \<and> runSchedule demoSource ([1, 0] @ [0, 1]) (replicate 2 (AwaitingDelay ''SanDiego''), emptyRepo)
      = (replicate 2 (Settled [mkSensor ''A'', mkSensor ''B'', mkSensor ''C'']),
         emptyRepo\<lparr>sensorCache := (sensorCache emptyRepo)(''SanDiego'' \<mapsto> [mkSensor ''A'', mkSensor ''B'', mkSensor ''C'']),
            importLog := importLog emptyRepo @ replicate 2 ''SanDiego''\<rparr>)
   \<and> sensorCache demoWarmRepo ''SanDiego'' = Some [mkSensor ''A'', mkSensor ''B'', mkSensor ''C'']
   \<and> resume demoSource (AwaitingDelay ''SanDiego'')
        (snd (runSchedule demoSource [0, 0] ([AwaitingDelay ''Nowhere''], demoWarmRepo)))
      = (Settled [mkSensor ''A'', mkSensor ''B'', mkSensor ''C''],
         snd (runSchedule demoSource [0, 0] ([AwaitingDelay ''Nowhere''], demoWarmRepo)))"
proof -
  have miss: "sensorCache emptyRepo ''SanDiego'' = None"
    by (simp add: emptyRepo_def)
  have ok: "demoSource ''SanDiego'' = Some [mkSensor ''A'', mkSensor ''B'', mkSensor ''C'']"
    by (simp add: demoSource_def)
  have n: "(0::nat) < 2" by simp
  have p: "distinct [1, 0 :: nat] \<and> set [1, 0 :: nat] = {0..<2}" by auto
  have q: "distinct [0, 1 :: nat] \<and> set [0, 1 :: nat] = {0..<2}" by auto
  have warm: "sensorCache demoWarmRepo ''SanDiego'' = Some [mkSensor ''A'', mkSensor ''B'', mkSensor ''C'']"
    by (simp add: demoWarmRepo_def)
  from cold_calls_not_coalesced [where st = emptyRepo and locationId = "''SanDiego''"
      and src = demoSource and xs = "[mkSensor ''A'', mkSensor ''B'', mkSensor ''C'']" and n = 2
      and p = "[1, 0]" and q = "[0, 1]" and st' = demoWarmRepo and sched = "[0, 0]"
      and calls = "[AwaitingDelay ''Nowhere'']"]
    miss ok n p q warm
  show ?thesis by blast
qed

section \<open>The selection as a set in insertion order\<close>

lemma foldl_Set_add_set: "set (foldl Set_add acc xs) = set acc \<union> set xs"
  by (induction xs arbitrary: acc) (auto simp add: Set_add_def)

lemma foldl_Set_add_distinct: "distinct acc \<Longrightarrow> distinct (foldl Set_add acc xs)"
  by (induction xs arbitrary: acc) (auto simp add: Set_add_def)

lemma foldl_Set_add_fresh: "distinct (acc @ xs) \<Longrightarrow> foldl Set_add acc xs = acc @ xs"
  by (induction xs arbitrary: acc) (auto simp add: Set_add_def)

lemma Set_of_set: "set (Set_of xs) = set xs"
  by (simp add: Set_of_def foldl_Set_add_set)

lemma Set_of_distinct: "distinct (Set_of xs)"
  by (simp add: Set_of_def foldl_Set_add_distinct)

lemma Set_of_fresh: "distinct xs \<Longrightarrow> Set_of xs = xs"
  using foldl_Set_add_fresh [of "[]" xs] by (simp add: Set_of_def)

lemma handleToggleSensor_selection:
  "selectedSensorIds (handleToggleSensor x st)
   = (if x \<in> set (selectedSensorIds st) then removeAll x (selectedSensorIds st)
      else selectedSensorIds st @ [x])"
  by (simp add: handleToggleSensor_def Set_has_def Set_add_def Set_delete_def)

lemma handleToggleSensor_frame:
  "sensors (handleToggleSensor x st) = sensors st"
  "selectedLocationId (handleToggleSensor x st) = selectedLocationId st"
  "fetches (handleToggleSensor x st) = fetches st"
  by (simp_all add: handleToggleSensor_def)

lemma fold_toggle_fresh:
  "distinct (selectedSensorIds st @ xs) \<Longrightarrow>
   selectedSensorIds (fold handleToggleSensor xs st) = selectedSensorIds st @ xs"
proof (induction xs arbitrary: st)
  case Nil
  show ?case by simp
next
  case (Cons x xs)
  from Cons.prems have sel: "selectedSensorIds (handleToggleSensor x st) = selectedSensorIds st @ [x]"
    by (simp add: handleToggleSensor_selection)
  with Cons.prems have "distinct (selectedSensorIds (handleToggleSensor x st) @ xs)" by simp
  from Cons.IH [OF this] sel show ?case by simp
qed



section \<open>Toggle\<close>

text \<open>
  Claim C1, as stated, fails: on the page showing catalogue A, B, C with nothing
  selected, toggling \<^verbatim>\<open>Z\<close>, which is no sensor id of the catalogue, adds \<^verbatim>\<open>Z\<close> to the
  selection.
\<close>

theorem toggle_adds_unknown_id:
  "''Z'' \<notin> sensorId ` set (sensors readyPage)
   \<and> selectedSensorIds readyPage = []
   \<and> selectedSensorIds (handleToggleSensor ''Z'' readyPage) = [''Z'']"
  by (simp add: readyPage_def handleToggleSensor_selection mkSensor_def)

text \<open>
  Claim C1, amended. \<^verbatim>\<open>handleToggleSensor\<close> flips the membership of the given id in
  the selection whether or not the id belongs to the catalogue, and leaves the
  catalogue as it is; no error is reported. An id outside the catalogue that is not
  selected is appended to the selection.
\<close>

theorem toggle_flips_any_id:
  "set (selectedSensorIds (handleToggleSensor x st))
     = (if x \<in> set (selectedSensorIds st) then set (selectedSensorIds st) - {x}
        else insert x (set (selectedSensorIds st)))
   \<and> sensors (handleToggleSensor x st) = sensors st
   \<and> (x \<notin> sensorId ` set (sensors st) \<and> x \<notin> set (selectedSensorIds st) \<longrightarrow>
        selectedSensorIds (handleToggleSensor x st) = selectedSensorIds st @ [x])"
  by (auto simp add: handleToggleSensor_selection handleToggleSensor_frame)

theorem toggle_flips_any_id_witness:
  "''Z'' \<notin> sensorId ` set (sensors readyPage) \<and> ''Z'' \<notin> set (selectedSensorIds readyPage)
   \<and> selectedSensorIds (handleToggleSensor ''Z'' readyPage) = selectedSensorIds readyPage @ [''Z'']"
proof -
  have h: "''Z'' \<notin> sensorId ` set (sensors readyPage) \<and> ''Z'' \<notin> set (selectedSensorIds readyPage)"
    by (simp add: readyPage_def mkSensor_def)
  with toggle_flips_any_id [of "''Z''" readyPage] show ?thesis by blast
qed

section \<open>Confirm\<close>

lemma handleConfirm_fields:
  "handleConfirm st =
     \<lparr>confirmedLocation = selectedLocationId st, confirmedCount = length (selectedSensorIds st),
      confirmedSensorIds = selectedSensorIds st\<rparr>"
  by (simp add: handleConfirm_def Let_def)

text \<open>
  Claim C2, as stated, fails: with catalogue A, B, C and the toggles C then A, the
  confirmation lists C before A, while the catalogue order of the two is A, C.
\<close>

theorem confirm_lists_toggle_order:
  "handleConfirm (handleToggleSensor ''A'' (handleToggleSensor ''C'' readyPage))
     = \<lparr>confirmedLocation = Some ''L1'', confirmedCount = 2, confirmedSensorIds = [''C'', ''A'']\<rparr>
   \<and> filter (\<lambda>i. i \<in> set (selectedSensorIds
          (handleToggleSensor ''A'' (handleToggleSensor ''C'' readyPage))))
        (map sensorId (sensors (handleToggleSensor ''A'' (handleToggleSensor ''C'' readyPage))))
     = [''A'', ''C'']"
  by (simp add: handleConfirm_fields handleToggleSensor_selection handleToggleSensor_frame
      readyPage_def mkSensor_def)

text \<open>
  Claim C2, amended. \<^verbatim>\<open>handleConfirm\<close> reports the selected location id, the members
  of the selection in the order in which they were inserted into it, and as count the
  length of that list. Ids toggled in one after the other appear in toggle order; after
  select-all on a catalogue with distinct ids they appear in catalogue order.
\<close>

theorem confirm_reports_insertion_order:
  "confirmedLocation (handleConfirm st) = selectedLocationId st
   \<and> confirmedSensorIds (handleConfirm st) = selectedSensorIds st
   \<and> confirmedCount (handleConfirm st) = length (confirmedSensorIds (handleConfirm st))
   \<and> (distinct (selectedSensorIds st @ xs) \<longrightarrow>
        confirmedSensorIds (handleConfirm (fold handleToggleSensor xs st))
          = selectedSensorIds st @ xs)
   \<and> (distinct (map sensorId (sensors st)) \<longrightarrow>
        confirmedSensorIds (handleConfirm (handleSelectAll st)) = map sensorId (sensors st))"
  by (simp add: handleConfirm_fields fold_toggle_fresh handleSelectAll_def Set_of_fresh)

theorem confirm_reports_insertion_order_witness:
  "distinct (selectedSensorIds readyPage @ [''C'', ''A''])
   \<and> confirmedSensorIds (handleConfirm (fold handleToggleSensor [''C'', ''A''] readyPage))
       = selectedSensorIds readyPage @ [''C'', ''A'']
   \<and> distinct (map sensorId (sensors readyPage))
   \<and> confirmedSensorIds (handleConfirm (handleSelectAll readyPage))
       = map sensorId (sensors readyPage)"
proof -
  have h1: "distinct (selectedSensorIds readyPage @ [''C'', ''A''])"
    by (simp add: readyPage_def)
  have h2: "distinct (map sensorId (sensors readyPage))"
    by (simp add: readyPage_def mkSensor_def)
  from confirm_reports_insertion_order [of readyPage "[''C'', ''A'']"] h1 h2
  show ?thesis by blast
qed

text \<open>
  Claim C5, as stated, fails: \<^verbatim>\<open>handleConfirm\<close> on a page with an empty selection
  returns its report with count 0, and a toggle on the initial page, where no location
  is selected, is applied.
\<close>

theorem confirm_with_empty_selection_returns:
  "selectedSensorIds readyPage = []
   \<and> handleConfirm readyPage
       = \<lparr>confirmedLocation = Some ''L1'', confirmedCount = 0, confirmedSensorIds = []\<rparr>
   \<and> selectedLocationId initialPage = None
   \<and> selectedSensorIds (handleToggleSensor ''A'' initialPage) = [''A'']"
  by (simp add: handleConfirm_fields handleToggleSensor_selection readyPage_def initialPage_def)

text \<open>
  Claim C5, amended. \<^verbatim>\<open>handleConfirm\<close> has no precondition and reports no error: in
  every state it outputs the location id, the selected ids and their count, which is 0
  for an empty selection. The guard is in the presentation layer: the confirm button
  of \<^verbatim>\<open>ActionBar\<close> is disabled exactly when the selected count is 0 or \<^verbatim>\<open>isLoading\<close> is
  set. The three selection handlers, too, are applied in every state, whatever the
  location and loading flags are.
\<close>

theorem confirm_unguarded_button_guarded:
  "handleConfirm st =
     \<lparr>confirmedLocation = selectedLocationId st, confirmedCount = selectedCount st,
      confirmedSensorIds = selectedSensorIds st\<rparr>
   \<and> (selectedSensorIds st = [] \<longrightarrow> confirmedCount (handleConfirm st) = 0)
   \<and> confirmDisabled (selectedCount st) isLoading = (selectedSensorIds st = [] \<or> isLoading)
   \<and> selectedSensorIds (handleToggleSensor x st)
       = (if x \<in> set (selectedSensorIds st) then removeAll x (selectedSensorIds st)
          else selectedSensorIds st @ [x])
   \<and> selectedSensorIds (handleSelectAll st) = Set_of (map sensorId (sensors st))
   \<and> selectedSensorIds (handleDeselectAll st) = []"
  by (simp add: handleConfirm_fields selectedCount_def confirmDisabled_def hasSelection_def
      handleToggleSensor_selection handleSelectAll_def handleDeselectAll_def)

theorem confirm_unguarded_button_guarded_witness:
  "selectedSensorIds readyPage = []
   \<and> confirmedCount (handleConfirm readyPage) = 0
   \<and> confirmDisabled (selectedCount readyPage) False
   \<and> \<not> confirmDisabled (selectedCount (handleToggleSensor ''A'' readyPage)) False"
proof -
  have h: "selectedSensorIds readyPage = []" by (simp add: readyPage_def)
  have g: "selectedSensorIds (handleToggleSensor ''A'' readyPage) \<noteq> []"
    by (simp add: handleToggleSensor_selection readyPage_def)
  from confirm_unguarded_button_guarded [of readyPage False "''A''"]
    confirm_unguarded_button_guarded [of "handleToggleSensor ''A'' readyPage" False "''A''"] h g
  show ?thesis by blast
qed

section \<open>Select all and deselect all\<close>

text \<open>
  Claim C9. For every page state, whatever the catalogue and the prior selection,
  \<^verbatim>\<open>handleSelectAll\<close> makes the selection exactly the set of the catalogue's sensor
  ids, so that the selected count is the number of distinct ids, and equals the
  catalogue's length \<^verbatim>\<open>sensors.length\<close> when the ids are pairwise distinct;
  \<^verbatim>\<open>handleDeselectAll\<close> makes the selection empty and the count 0. Neither changes the
  catalogue.
\<close>

theorem selectAll_is_universe_deselectAll_is_empty:
  "set (selectedSensorIds (handleSelectAll st)) = sensorId ` set (sensors st)
   \<and> distinct (selectedSensorIds (handleSelectAll st))
   \<and> selectedCount (handleSelectAll st) = card (sensorId ` set (sensors st))
   \<and> (distinct (map sensorId (sensors st)) \<longrightarrow>
        selectedCount (handleSelectAll st) = totalCount (handleSelectAll st))
   \<and> sensors (handleSelectAll st) = sensors st
   \<and> selectedSensorIds (handleDeselectAll st) = []
   \<and> selectedCount (handleDeselectAll st) = 0
   \<and> sensors (handleDeselectAll st) = sensors st"
proof -
  have sel: "selectedSensorIds (handleSelectAll st) = Set_of (map sensorId (sensors st))"
    by (simp add: handleSelectAll_def)
  have s: "set (selectedSensorIds (handleSelectAll st)) = sensorId ` set (sensors st)"
    by (simp add: sel Set_of_set)
  have d: "distinct (selectedSensorIds (handleSelectAll st))"
    by (simp add: sel Set_of_distinct)
  have c: "selectedCount (handleSelectAll st) = card (sensorId ` set (sensors st))"
    using distinct_card [OF d] s by (simp add: selectedCount_def)
  have t: "distinct (map sensorId (sensors st)) \<longrightarrow>
        selectedCount (handleSelectAll st) = totalCount (handleSelectAll st)"
    by (simp add: selectedCount_def totalCount_def handleSelectAll_def Set_of_fresh)
  have rest: "sensors (handleSelectAll st) = sensors st"
    "selectedSensorIds (handleDeselectAll st) = []"
    "selectedCount (handleDeselectAll st) = 0"
    "sensors (handleDeselectAll st) = sensors st"
    by (simp_all add: handleSelectAll_def handleDeselectAll_def selectedCount_def)
  from s d c t rest show ?thesis by blast
qed

theorem selectAll_is_universe_deselectAll_is_empty_witness:
  "distinct (map sensorId (sensors (handleToggleSensor ''B'' readyPage)))
   \<and> selectedCount (handleSelectAll (handleToggleSensor ''B'' readyPage)) = 3
   \<and> totalCount (handleSelectAll (handleToggleSensor ''B'' readyPage)) = 3
   \<and> selectedCount (handleSelectAll initialPage) = 0
   \<and> totalCount (handleSelectAll initialPage) = 0"
proof -
  have h: "distinct (map sensorId (sensors (handleToggleSensor ''B'' readyPage)))"
    by (simp add: handleToggleSensor_frame readyPage_def mkSensor_def)
  have t: "totalCount (handleSelectAll (handleToggleSensor ''B'' readyPage)) = 3"
    by (simp add: totalCount_def handleSelectAll_def handleToggleSensor_frame readyPage_def)
  have h0: "distinct (map sensorId (sensors initialPage))"
    by (simp add: initialPage_def)
  have t0: "totalCount (handleSelectAll initialPage) = 0"
    by (simp add: totalCount_def handleSelectAll_def initialPage_def)
  from selectAll_is_universe_deselectAll_is_empty [of "handleToggleSensor ''B'' readyPage"] h
  have e: "selectedCount (handleSelectAll (handleToggleSensor ''B'' readyPage))
    = totalCount (handleSelectAll (handleToggleSensor ''B'' readyPage))"
    by blast
  from selectAll_is_universe_deselectAll_is_empty [of initialPage] h0
  have e0: "selectedCount (handleSelectAll initialPage) = totalCount (handleSelectAll initialPage)"
    by blast
  from h show ?thesis by (simp add: e e0 t t0)
qed

section \<open>Changing the location\<close>






end
